theory Spec2Isabelle
  imports Complex_Main "HOL-Library.Sublist"
begin

section \<open>Data model\<close>

text \<open>
  A Python \<open>str\<close> is a sequence of Unicode code points; the corpus is Chinese text, so
  strings are lists of code points, not byte strings.
\<close>

type_synonym pystr = "nat list"

datatype meta_value = MStr pystr | MInt int

type_synonym metadata = "(pystr \<times> meta_value) list"

text \<open>\<open>langchain_core.documents.Document\<close>: the text of a page or chunk and its metadata dict.\<close>

record Document =
  page_content :: pystr
  metadata :: metadata

text \<open>
  Exceptions. One constructor for each \<open>raise\<close> statement of the source, carrying what
  the message is formatted from; \<open>External\<close> is any exception raised inside a collaborator
  (PDF loader, text splitter, embedding provider, vector index); \<open>AttributeError\<close> carries
  the name of the attribute that the object read does not have.
\<close>

datatype pyexc =
    External pystr
  | AttributeError pystr
  | IndexError
  | ZeroDivisionError
  | RangeStepZero
  | NoPdfFiles pystr
  | LoadFailed pystr
  | StatsFailed pyexc
  | SplitFailed
  | AddFailed pyexc
  | InsertFailed pyexc
  | ProcessFailed pyexc

text \<open>Sequencing of fallible steps: the first exception ends the computation.\<close>

definition and_then :: "pyexc + 'a \<Rightarrow> ('a \<Rightarrow> pyexc + 'b) \<Rightarrow> pyexc + 'b" where
  "and_then r f = (case r of Inl e \<Rightarrow> Inl e | Inr x \<Rightarrow> f x)"

section \<open>Python string and list primitives\<close>

text \<open>
  \<open>str.lower\<close> as the scan of the directory needs it, for the test
  \<open>file.lower().endswith('.pdf')\<close>: \<open>A\<close>..\<open>Z\<close> are mapped to \<open>a\<close>..\<open>z\<close> and every other code
  point is kept. No other code point is lowered to one of the characters of \<open>.pdf\<close>, so the
  test comes out as in Python. The keyword filter of the retriever does not use this
  function.
\<close>

definition lower_cp :: "nat \<Rightarrow> nat" where
  "lower_cp c = (if 65 \<le> c \<and> c \<le> 90 then c + 32 else c)"

definition lower :: "pystr \<Rightarrow> pystr" where
  "lower s = map lower_cp s"

text \<open>\<open>a in b\<close> on strings: \<open>a\<close> occurs in \<open>b\<close> as a contiguous run.\<close>

fun str_in :: "pystr \<Rightarrow> pystr \<Rightarrow> bool" where
  "str_in a [] = (a = [])"
| "str_in a (y # ys) = (prefix a (y # ys) \<or> str_in a ys)"

text \<open>\<open>s.endswith(suffix)\<close>.\<close>

definition endswith :: "pystr \<Rightarrow> pystr \<Rightarrow> bool" where
  "endswith s suf = suffix suf s"

text \<open>\<open>xs[i]\<close> for an index \<open>i \<ge> 0\<close>: out of range raises \<open>IndexError\<close>.\<close>

definition py_index :: "'a list \<Rightarrow> nat \<Rightarrow> pyexc + 'a" where
  "py_index xs i = (if i < length xs then Inr (xs ! i) else Inl IndexError)"

text \<open>\<open>xs[:k]\<close>: a negative \<open>k\<close> counts from the end.\<close>

definition py_prefix :: "'a list \<Rightarrow> int \<Rightarrow> 'a list" where
  "py_prefix xs k =
     (if 0 \<le> k then take (nat k) xs else take (length xs - nat (- k)) xs)"

text \<open>\<open>xs[i:j]\<close> for \<open>0 \<le> i \<le> j\<close>.\<close>

definition py_slice :: "'a list \<Rightarrow> nat \<Rightarrow> nat \<Rightarrow> 'a list" where
  "py_slice xs i j = take (j - i) (drop i xs)"

text \<open>
  \<open>range(0, n, step)\<close> for \<open>n \<ge> 0\<close>: a zero step raises \<open>ValueError\<close>, a negative step
  gives the empty range, a positive step gives \<open>0, step, 2 * step, ...\<close> below \<open>n\<close>.
\<close>

function range_from :: "nat \<Rightarrow> nat \<Rightarrow> nat \<Rightarrow> nat list" where
  "range_from i n step =
     (if step = 0 \<or> n \<le> i then [] else i # range_from (i + step) n step)"
  by pat_completeness auto
termination
  by (relation "measure (\<lambda>(i, n, step). n - i)") auto

definition py_range :: "nat \<Rightarrow> int \<Rightarrow> pyexc + nat list" where
  "py_range n step =
     (if step = 0 then Inl RangeStepZero
      else if step < 0 then Inr []
      else Inr (range_from 0 n (nat step)))"

section \<open>Retrieval engine (\<open>vector_retriever.py\<close>)\<close>

text \<open>
  The dict returned by a collection's \<open>query\<close>: one inner list per query embedding.
\<close>

record query_result =
  qr_ids :: "pystr list list"
  qr_documents :: "pystr list list"
  qr_metadatas :: "metadata option list list"

text \<open>The dict returned by a collection's \<open>get\<close>.\<close>

record get_result =
  gr_ids :: "pystr list"
  gr_documents :: "pystr list"
  gr_metadatas :: "metadata option list"

text \<open>
  The two methods of a collection that the retriever calls; either may raise. \<open>'v\<close> is the
  type of embedding vectors, \<open>'f\<close> the type of metadata filters (\<open>None\<close> when no filter is
  given).
\<close>

record ('v, 'f) Collection =
  coll_query :: "'v list \<Rightarrow> int \<Rightarrow> 'f option \<Rightarrow> pyexc + query_result"
  coll_get :: "pystr list \<Rightarrow> pyexc + get_result"

text \<open>
  The object bound to \<open>self.chroma_db\<close>, as the methods of the retriever see it: they read its
  attributes \<open>collection\<close> and \<open>embedding_function\<close> (of the latter the method
  \<open>embed_query\<close>). An attribute that the object does not have is \<open>None\<close> here, and reading it
  raises \<open>AttributeError\<close>.
\<close>

record ('v, 'f) chroma_db_object =
  collection :: "('v, 'f) Collection option"
  embedding_function :: "(pystr \<Rightarrow> pyexc + 'v) option"

text \<open>
  An instance of \<open>ChromaManager\<close>. Its constructor (\<open>chroma_manager.py\<close>, lines 39 to 56)
  assigns \<open>client\<close>, \<open>collection_name\<close>, \<open>embed_model\<close>, \<open>logger\<close> and \<open>store\<close>, and the class
  defines no other attribute or property: such an object has neither \<open>collection\<close> nor
  \<open>embedding_function\<close>.
\<close>

definition ChromaManager_object :: "('v, 'f) chroma_db_object" where
  "ChromaManager_object = \<lparr>collection = None, embedding_function = None\<rparr>"

text \<open>
  A \<open>VectorRetriever\<close>: the two attributes its constructor assigns. The constructor itself
  is not modelled; it builds \<open>chroma_db\<close> by calling \<open>ChromaManager\<close> with the keyword
  \<open>embedding_function\<close>, a parameter that \<open>ChromaManager.__init__\<close> does not have.
\<close>

record ('v, 'f) VectorRetriever =
  top_k :: int
  chroma_db :: "('v, 'f) chroma_db_object"

text \<open>The attribute names \<open>collection\<close> and \<open>embedding_function\<close>.\<close>

definition attr_collection :: pystr where
  "attr_collection = [99, 111, 108, 108, 101, 99, 116, 105, 111, 110]"

definition attr_embedding_function :: pystr where
  "attr_embedding_function =
     [101, 109, 98, 101, 100, 100, 105, 110, 103, 95, 102, 117, 110, 99, 116, 105, 111, 110]"

text \<open>Reading an attribute: \<open>AttributeError\<close> when the object does not have it.\<close>

definition get_attr :: "pystr \<Rightarrow> 'a option \<Rightarrow> pyexc + 'a" where
  "get_attr name v = (case v of None \<Rightarrow> Inl (AttributeError name) | Some x \<Rightarrow> Inr x)"

text \<open>\<open>m or {}\<close> on an optional metadata dict.\<close>

definition or_empty :: "metadata option \<Rightarrow> metadata" where
  "or_empty m = (case m of None \<Rightarrow> [] | Some d \<Rightarrow> d)"

text \<open>
  The conversion loop of \<open>similarity_search\<close>: for each \<open>i\<close> in turn, read
  \<open>results['documents'][0][i]\<close> and \<open>results['metadatas'][0][i]\<close> and append the document.
\<close>

fun to_documents :: "query_result \<Rightarrow> nat list \<Rightarrow> pyexc + Document list" where
  "to_documents res [] = Inr []"
| "to_documents res (i # rest) =
     and_then (py_index (qr_documents res) 0) (\<lambda>ds.
     and_then (py_index ds i) (\<lambda>text.
     and_then (py_index (qr_metadatas res) 0) (\<lambda>ms.
     and_then (py_index ms i) (\<lambda>m.
     and_then (to_documents res rest) (\<lambda>docs.
       Inr (\<lparr>page_content = text, metadata = or_empty m\<rparr> # docs))))))"

text \<open>
  \<open>similarity_search\<close>: read \<open>self.chroma_db.collection\<close>, embed the query with
  \<open>self.chroma_db.embedding_function.embed_query\<close>, query the collection for \<open>self.top_k\<close>
  results, convert.
\<close>

definition similarity_search ::
  "('v, 'f) VectorRetriever \<Rightarrow> pystr \<Rightarrow> 'f option \<Rightarrow> pyexc + Document list" where
  "similarity_search self query filter_conditions =
     and_then (get_attr attr_collection (collection (chroma_db self))) (\<lambda>coll.
     and_then (get_attr attr_embedding_function (embedding_function (chroma_db self))) (\<lambda>embed_query.
     and_then (embed_query query) (\<lambda>query_embedding.
     and_then (coll_query coll [query_embedding] (top_k self) filter_conditions) (\<lambda>results.
     and_then (py_index (qr_ids results) 0) (\<lambda>ids0.
       to_documents results [0 ..< length ids0])))))"

text \<open>
  The test of the list comprehension in \<open>hybrid_search\<close>,
  \<open>keyword.lower() in doc.page_content.lower()\<close>. \<open>str.lower\<close> belongs to the Python runtime
  and follows the Unicode tables of the interpreter; it is the parameter \<open>str_lower\<close>.
\<close>

definition keyword_match :: "(pystr \<Rightarrow> pystr) \<Rightarrow> pystr \<Rightarrow> Document \<Rightarrow> bool" where
  "keyword_match str_lower keyword doc = str_in (str_lower keyword) (str_lower (page_content doc))"

text \<open>
  \<open>if keyword:\<close> is false for \<open>None\<close> and for the empty string; the filtered list is
  sliced with \<open>[:self.top_k]\<close>.
\<close>

definition hybrid_search ::
  "(pystr \<Rightarrow> pystr) \<Rightarrow> ('v, 'f) VectorRetriever \<Rightarrow> pystr \<Rightarrow> pystr option \<Rightarrow> 'f option
     \<Rightarrow> pyexc + Document list" where
  "hybrid_search str_lower self query keyword filter_conditions =
     and_then (similarity_search self query filter_conditions) (\<lambda>vector_results.
       case keyword of
         None \<Rightarrow> Inr vector_results
       | Some k \<Rightarrow>
           if k \<noteq> []
           then Inr (py_prefix (filter (keyword_match str_lower k) vector_results) (top_k self))
           else Inr vector_results)"

definition get_by_id ::
  "('v, 'f) VectorRetriever \<Rightarrow> pystr \<Rightarrow> pyexc + Document option" where
  "get_by_id self doc_id =
     and_then (get_attr attr_collection (collection (chroma_db self))) (\<lambda>coll.
     and_then (coll_get coll [doc_id]) (\<lambda>result.
       if gr_documents result = [] then Inr None
       else
         and_then (py_index (gr_documents result) 0) (\<lambda>text.
         and_then (py_index (gr_metadatas result) 0) (\<lambda>m.
           Inr (Some \<lparr>page_content = text, metadata = or_empty m\<rparr>)))))"

section \<open>Vector store gateway (\<open>chroma_manager.py\<close>) and ingestion (\<open>pdf_processor.py\<close>)\<close>

text \<open>
  Every \<open>logger\<close> call of the two modules, one constructor per call site, carrying the values
  the message is formatted from (elapsed times are left out).
\<close>

datatype log_event =
    Warn_add_empty
  | Info_added nat
  | Error_add_failed pyexc
  | Error_stats_failed pyexc
  | Info_found_pdfs nat
  | Debug_loaded pystr nat
  | Error_load_failed pystr pyexc
  | Info_split_done nat nat
  | Error_split_failed pyexc
  | Warn_insert_empty
  | Info_insert_start nat
  | Info_insert_done
  | Error_insert_failed pyexc
  | Error_group_failed pyexc
  | Info_start
  | Info_group nat nat
  | Info_finished
  | Error_process_failed pyexc

text \<open>
  The state an ingestion run acts on: the state of the vector index (\<open>'s\<close>, owned by the
  index), the log (\<open>logs\<close>), the standard output, and two traces of the calls made to collaborators:
  \<open>loaded\<close> lists the paths handed to the PDF loader and \<open>written\<close> the document lists handed
  to the index's \<open>add_documents\<close>, both in call order.
\<close>

record 's world =
  store :: 's
  logs :: "log_event list"
  stdout :: "pystr list"
  loaded :: "pystr list"
  written :: "Document list list"

text \<open>
  The collaborators: \<open>os.listdir\<close>, \<open>PyMuPDFLoader(path).load()\<close>, the constructor of
  \<open>RecursiveCharacterTextSplitter\<close> (\<open>Some e\<close> when it rejects the sizes) and its
  \<open>split_documents\<close>, and the index: \<open>Chroma.add_documents\<close>, which returns the identifiers
  or raises and in both cases leaves a new index state, and the collection's \<open>count()\<close>.
\<close>

record 's env =
  listdir :: "pystr \<Rightarrow> pyexc + pystr list"
  pdf_load :: "pystr \<Rightarrow> pyexc + Document list"
  splitter_new :: "int \<Rightarrow> int \<Rightarrow> pyexc option"
  split_documents :: "int \<Rightarrow> int \<Rightarrow> Document list \<Rightarrow> pyexc + Document list"
  store_add :: "'s \<Rightarrow> Document list \<Rightarrow> (pyexc + pystr list) \<times> 's"
  collection_count :: "'s \<Rightarrow> pyexc + nat"

definition logged :: "log_event \<Rightarrow> 's world \<Rightarrow> 's world" where
  "logged ev w = w\<lparr>logs := logs w @ [ev]\<rparr>"

subsection \<open>\<open>ChromaManager\<close>\<close>

text \<open>
  \<open>add_documents\<close> on a list of \<open>Document\<close> objects, the input of the ingestion path
  (\<open>_prepare_documents\<close> returns such a list as it is).
\<close>

definition add_documents ::
  "'s env \<Rightarrow> Document list \<Rightarrow> 's world \<Rightarrow> (pyexc + pystr list) \<times> 's world" where
  "add_documents E docs w =
     (if docs = [] then (Inr [], logged Warn_add_empty w)
      else
        (case store_add E (store w) docs of
           (Inr doc_ids, s') \<Rightarrow>
             (Inr doc_ids,
              logged (Info_added (length doc_ids)) (w\<lparr>store := s', written := written w @ [docs]\<rparr>))
         | (Inl e, s') \<Rightarrow>
             (Inl (AddFailed e),
              logged (Error_add_failed e) (w\<lparr>store := s', written := written w @ [docs]\<rparr>))))"

text \<open>\<open>get_collection_stats\<close>: the \<open>count\<close> entry of the returned dict.\<close>

definition get_collection_stats :: "'s env \<Rightarrow> 's world \<Rightarrow> (pyexc + nat) \<times> 's world" where
  "get_collection_stats E w =
     (case collection_count E (store w) of
        Inr n \<Rightarrow> (Inr n, w)
      | Inl e \<Rightarrow> (Inl (StatsFailed e), logged (Error_stats_failed e) w))"

subsection \<open>\<open>PDFProcessor\<close>\<close>

record PDFProcessor =
  directory :: pystr
  file_group_num :: int
  batch_num :: int
  chunksize :: int
  overlap :: int

text \<open>\<open>os.path.join(a, b)\<close> on POSIX paths.\<close>

definition path_join :: "pystr \<Rightarrow> pystr \<Rightarrow> pystr" where
  "path_join a b =
     (if prefix [47] b then b
      else if a = [] \<or> suffix [47] a then a @ b
      else a @ [47] @ b)"

text \<open>The string \<open>'.pdf'\<close>.\<close>

definition dot_pdf :: pystr where
  "dot_pdf = [46, 112, 100, 102]"

definition load_pdf_files ::
  "'s env \<Rightarrow> PDFProcessor \<Rightarrow> 's world \<Rightarrow> (pyexc + pystr list) \<times> 's world" where
  "load_pdf_files E self w =
     (case listdir E (directory self) of
        Inl e \<Rightarrow> (Inl e, w)
      | Inr names \<Rightarrow>
          (let pdf_files =
                 map (path_join (directory self))
                   (filter (\<lambda>file. endswith (lower file) dot_pdf) names)
           in if pdf_files = [] then (Inl (NoPdfFiles (directory self)), w)
              else (Inr pdf_files, logged (Info_found_pdfs (length pdf_files)) w)))"

definition load_pdf_content ::
  "'s env \<Rightarrow> pystr \<Rightarrow> 's world \<Rightarrow> (pyexc + Document list) \<times> 's world" where
  "load_pdf_content E pdf_path w =
     (let w1 = w\<lparr>loaded := loaded w @ [pdf_path]\<rparr>
      in case pdf_load E pdf_path of
           Inr docs \<Rightarrow> (Inr docs, logged (Debug_loaded pdf_path (length docs)) w1)
         | Inl e \<Rightarrow> (Inl (LoadFailed pdf_path), logged (Error_load_failed pdf_path e) w1))"

text \<open>
  \<open>split_text\<close>: the splitter is constructed outside the \<open>try\<close>, so an exception of the
  constructor is not wrapped.
\<close>

definition split_text ::
  "'s env \<Rightarrow> PDFProcessor \<Rightarrow> Document list \<Rightarrow> 's world \<Rightarrow> (pyexc + Document list) \<times> 's world" where
  "split_text E self documents w =
     (case splitter_new E (chunksize self) (overlap self) of
        Some e \<Rightarrow> (Inl e, w)
      | None \<Rightarrow>
          (case split_documents E (chunksize self) (overlap self) documents of
             Inr docs \<Rightarrow> (Inr docs, logged (Info_split_done (length documents) (length docs)) w)
           | Inl e \<Rightarrow> (Inl SplitFailed, logged (Error_split_failed e) w)))"

text \<open>
  The loop of \<open>insert_docs_chromadb\<close> over the start indices \<open>i\<close>: write \<open>docs[i:i + batch_size]\<close>;
  the first write that raises ends the loop.
\<close>

fun insert_loop ::
  "'s env \<Rightarrow> Document list \<Rightarrow> nat \<Rightarrow> nat list \<Rightarrow> 's world \<Rightarrow> (pyexc + unit) \<times> 's world" where
  "insert_loop E docs batch_size [] w = (Inr (), w)"
| "insert_loop E docs batch_size (i # rest) w =
     (case add_documents E (py_slice docs i (i + batch_size)) w of
        (Inl e, w') \<Rightarrow> (Inl e, w')
      | (Inr doc_ids, w') \<Rightarrow> insert_loop E docs batch_size rest w')"

text \<open>
  \<open>insert_docs_chromadb\<close>. \<open>total_batches\<close> is computed before the \<open>try\<close>, so a zero batch
  size raises \<open>ZeroDivisionError\<close> unwrapped. The throughput figure shown on the progress bar
  does not influence control flow and is not modelled.
\<close>

definition insert_docs_chromadb ::
  "'s env \<Rightarrow> Document list \<Rightarrow> int \<Rightarrow> 's world \<Rightarrow> (pyexc + unit) \<times> 's world" where
  "insert_docs_chromadb E docs batch_size w =
     (if docs = [] then (Inr (), logged Warn_insert_empty w)
      else
        (let w1 = logged (Info_insert_start (length docs)) w
         in if batch_size = 0 then (Inl ZeroDivisionError, w1)
            else
              (case py_range (length docs) batch_size of
                 Inl e \<Rightarrow> (Inl (InsertFailed e), logged (Error_insert_failed e) w1)
               | Inr starts \<Rightarrow>
                   (case insert_loop E docs (nat batch_size) starts w1 of
                      (Inr u, w2) \<Rightarrow> (Inr (), logged Info_insert_done w2)
                    | (Inl e, w2) \<Rightarrow> (Inl (InsertFailed e), logged (Error_insert_failed e) w2)))))"

text \<open>Phase 1 of \<open>process_pdfs_group\<close>: load the files in order; the first failure ends the loop.\<close>

fun load_group ::
  "'s env \<Rightarrow> pystr list \<Rightarrow> Document list \<Rightarrow> 's world \<Rightarrow> (pyexc + Document list) \<times> 's world" where
  "load_group E [] pdf_contents w = (Inr pdf_contents, w)"
| "load_group E (pdf_path # rest) pdf_contents w =
     (case load_pdf_content E pdf_path w of
        (Inl e, w') \<Rightarrow> (Inl e, w')
      | (Inr documents, w') \<Rightarrow> load_group E rest (pdf_contents @ documents) w')"

text \<open>The body of the \<open>try\<close> of \<open>process_pdfs_group\<close>.\<close>

definition process_pdfs_group_body ::
  "'s env \<Rightarrow> PDFProcessor \<Rightarrow> pystr list \<Rightarrow> 's world \<Rightarrow> (pyexc + unit) \<times> 's world" where
  "process_pdfs_group_body E self pdf_files_group w =
     (case load_group E pdf_files_group [] w of
        (Inl e, w1) \<Rightarrow> (Inl e, w1)
      | (Inr pdf_contents, w1) \<Rightarrow>
          if pdf_contents = [] then (Inr (), w1)
          else
            (case split_text E self pdf_contents w1 of
               (Inl e, w2) \<Rightarrow> (Inl e, w2)
             | (Inr docs, w2) \<Rightarrow>
                 if docs = [] then (Inr (), w2)
                 else insert_docs_chromadb E docs (batch_num self) w2))"

text \<open>
  \<open>process_pdfs_group\<close>: \<open>except Exception\<close> logs the exception and does not re-raise, so the
  method returns normally whatever happened in the body.
\<close>

definition process_pdfs_group ::
  "'s env \<Rightarrow> PDFProcessor \<Rightarrow> pystr list \<Rightarrow> 's world \<Rightarrow> 's world" where
  "process_pdfs_group E self pdf_files_group w =
     (case process_pdfs_group_body E self pdf_files_group w of
        (Inr u, w') \<Rightarrow> w'
      | (Inl e, w') \<Rightarrow> logged (Error_group_failed e) w')"

text \<open>The loop of \<open>process_pdfs\<close> over the start indices of the file groups.\<close>

fun group_loop ::
  "'s env \<Rightarrow> PDFProcessor \<Rightarrow> pystr list \<Rightarrow> nat list \<Rightarrow> 's world \<Rightarrow> 's world" where
  "group_loop E self pdf_files [] w = w"
| "group_loop E self pdf_files (i # rest) w =
     (let g = nat (file_group_num self);
          group = py_slice pdf_files i (i + g);
          w1 = logged (Info_group (i div g + 1) ((length pdf_files - 1) div g + 1)) w
      in group_loop E self pdf_files rest (process_pdfs_group E self group w1))"

text \<open>The line printed on success: \<open>PDF\<close> followed by six Chinese characters and \<open>!\<close>.\<close>

definition success_line :: pystr where
  "success_line = [80, 68, 70, 22788, 29702, 25104, 21151, 23436, 25104, 33]"

definition process_pdfs ::
  "'s env \<Rightarrow> PDFProcessor \<Rightarrow> 's world \<Rightarrow> (pyexc + unit) \<times> 's world" where
  "process_pdfs E self w =
     (let w0 = logged Info_start w
      in case load_pdf_files E self w0 of
           (Inl e, w1) \<Rightarrow> (Inl (ProcessFailed e), logged (Error_process_failed e) w1)
         | (Inr pdf_files, w1) \<Rightarrow>
             (case py_range (length pdf_files) (file_group_num self) of
                Inl e \<Rightarrow> (Inl (ProcessFailed e), logged (Error_process_failed e) w1)
              | Inr starts \<Rightarrow>
                  (let w2 = logged Info_finished (group_loop E self pdf_files starts w1)
                   in (Inr (), w2\<lparr>stdout := stdout w2 @ [success_line]\<rparr>))))"

text \<open>
  The consecutive slices \<open>xs[0:b]\<close>, \<open>xs[b:2b]\<close>, ... that the two batching loops
  (\<open>insert_docs_chromadb\<close> over documents, \<open>process_pdfs\<close> over files) go through.
\<close>

definition groups_of :: "'a list \<Rightarrow> nat \<Rightarrow> 'a list list" where
  "groups_of xs b = map (\<lambda>i. py_slice xs i (i + b)) (range_from 0 (length xs) b)"

section \<open>Chunking pipeline\<close>

text \<open>
  Modelled from the spec: \<open>split_text\<close> hands the pages to \<open>RecursiveCharacterTextSplitter\<close>
  of the \<open>langchain_text_splitters\<close> library, whose code is not part of the repository. The
  splitter below follows section 4.2 of the specification, with the separators that
  \<open>split_text\<close> passes to the library (\<open>pdf_processor.py\<close>, line 134), in their order: a
  chunk holds at most \<open>chunk_size\<close> characters; it ends after the first separator of the list
  that fits within \<open>chunk_size\<close> (of its occurrences the last one that fits), and at a hard
  cut after \<open>chunk_size\<close> characters when none fits; the next chunk starts with the trailing
  \<open>overlap\<close> characters of the previous one, or with the whole previous chunk when that is
  shorter; every chunk carries the page's metadata merged with its \<open>start_offset\<close> in the
  page. The specification does not say what happens when the chunk is not longer than
  \<open>overlap\<close>, where re-including makes no progress: the splitter is a partial
  function, and on such a page it yields no result (\<open>None\<close>). Outside the contract
  \<open>0 \<le> overlap < chunk_size\<close> the specification gives no behaviour; the model then produces
  no chunk.
\<close>

text \<open>
  The separators: paragraph break, line break, the full-width full stop, exclamation mark,
  question mark and semicolon, the space, and the empty string for the hard cut.
\<close>

definition separators :: "pystr list" where
  "separators = [[10, 10], [10], [12290], [65281], [65311], [65307], [32], []]"

text \<open>The largest \<open>p\<close> with \<open>0 < p \<le> hi\<close> such that the first \<open>p\<close> characters of \<open>t\<close> end in \<open>sep\<close>.\<close>

fun find_cut :: "pystr \<Rightarrow> pystr \<Rightarrow> nat \<Rightarrow> nat option" where
  "find_cut sep t 0 = None"
| "find_cut sep t (Suc p) =
     (if suffix sep (take (Suc p) t) then Some (Suc p) else find_cut sep t p)"

fun cut_point :: "pystr list \<Rightarrow> nat \<Rightarrow> pystr \<Rightarrow> nat" where
  "cut_point [] c t = c"
| "cut_point (sep # rest) c t =
     (if sep = [] then c
      else (case find_cut sep t c of Some p \<Rightarrow> p | None \<Rightarrow> cut_point rest c t))"

text \<open>The chunks of a page text from offset \<open>s\<close> on, each with its start offset.\<close>

partial_function (option) split_from ::
  "nat \<Rightarrow> nat \<Rightarrow> pystr \<Rightarrow> nat \<Rightarrow> (nat \<times> pystr) list option" where
  "split_from c ov tx s =
     (if ov < c \<and> s < length tx
      then
        (if length tx - s \<le> c then Some [(s, drop s tx)]
         else
           Option.bind
             (split_from c ov tx
                (s + cut_point separators c (drop s tx)
                   - min ov (cut_point separators c (drop s tx))))
             (\<lambda>rest. Some ((s, take (cut_point separators c (drop s tx)) (drop s tx)) # rest)))
      else Some [])"

text \<open>The metadata key \<open>start_offset\<close>.\<close>

definition start_offset_key :: pystr where
  "start_offset_key = [115, 116, 97, 114, 116, 95, 111, 102, 102, 115, 101, 116]"

definition with_start_offset :: "metadata \<Rightarrow> nat \<Rightarrow> metadata" where
  "with_start_offset md s =
     filter (\<lambda>(k, v). k \<noteq> start_offset_key) md @ [(start_offset_key, MInt (int s))]"

definition split_page :: "nat \<Rightarrow> nat \<Rightarrow> Document \<Rightarrow> Document list option" where
  "split_page c ov page =
     map_option
       (map (\<lambda>(s, t). \<lparr>page_content = t, metadata = with_start_offset (metadata page) s\<rparr>))
       (split_from c ov (page_content page) 0)"

fun split :: "Document list \<Rightarrow> nat \<Rightarrow> nat \<Rightarrow> Document list option" where
  "split [] c ov = Some []"
| "split (page # pages) c ov =
     (case split_page c ov page of
        None \<Rightarrow> None
      | Some chunks \<Rightarrow> map_option (\<lambda>rest. chunks @ rest) (split pages c ov))"

section \<open>Concrete inputs\<close>















text \<open>
  An ingestion environment over the directory \<open>d\<close>: the directory lists \<open>names\<close>; loading a
  path for which \<open>bad\<close> holds fails, any other file has one page; the splitter returns its
  input; the index is the list of stored documents, and every write fails when
  \<open>store_fails\<close> holds.
\<close>

definition demo_env :: "pystr list \<Rightarrow> (pystr \<Rightarrow> bool) \<Rightarrow> bool \<Rightarrow> Document list env" where
  "demo_env names bad store_fails =
     \<lparr>listdir = (\<lambda>d. Inr names),
      pdf_load = (\<lambda>p. if bad p then Inl (External [98, 97, 100])
                       else Inr [\<lparr>page_content = p, metadata = []\<rparr>]),
      splitter_new = (\<lambda>c ov. None),
      split_documents = (\<lambda>c ov ds. Inr ds),
      store_add = (\<lambda>s ds. if store_fails then (Inl (External [100, 111, 119, 110]), s)
                            else (Inr (map page_content ds), s @ ds)),
      collection_count = (\<lambda>s. Inr (length s))\<rparr>"

text \<open>
  The same environment with no file and an index that holds at most \<open>cap\<close> documents: a
  write fails when the index already holds \<open>cap\<close> documents or more.
\<close>

definition capped_env :: "nat \<Rightarrow> Document list env" where
  "capped_env cap =
     (demo_env [] (\<lambda>p. False) False)
       \<lparr>store_add := (\<lambda>s ds. if cap \<le> length s then (Inl (External [102, 117, 108, 108]), s)
                              else (Inr (map page_content ds), s @ ds))\<rparr>"

definition demo_processor :: PDFProcessor where
  "demo_processor =
     \<lparr>directory = [100], file_group_num = 80, batch_num = 6, chunksize = 500, overlap = 100\<rparr>"

definition empty_world :: "Document list world" where
  "empty_world = \<lparr>store = [], logs = [], stdout = [], loaded = [], written = []\<rparr>"

text \<open>The file names \<open>a.pdf\<close>, \<open>b.PDF\<close> and \<open>notes.txt\<close>, and the paths \<open>d/a.pdf\<close>, \<open>d/b.PDF\<close>.\<close>

definition a_pdf :: pystr where
  "a_pdf = [97, 46, 112, 100, 102]"

definition b_pdf :: pystr where
  "b_pdf = [98, 46, 80, 68, 70]"

definition notes_txt :: pystr where
  "notes_txt = [110, 111, 116, 101, 115, 46, 116, 120, 116]"

definition path_a :: pystr where
  "path_a = [100, 47, 97, 46, 112, 100, 102]"

definition path_b :: pystr where
  "path_b = [100, 47, 98, 46, 80, 68, 70]"

text \<open>
  One-character documents, and a page with the 23 characters \<open>ab cd ef gh ij kl mn op\<close>.
\<close>

definition doc_of :: "nat \<Rightarrow> Document" where
  "doc_of c = \<lparr>page_content = [c], metadata = []\<rparr>"

definition demo_page :: Document where
  "demo_page =
     \<lparr>page_content = [97, 98, 32, 99, 100, 32, 101, 102, 32, 103, 104, 32, 105, 106, 32, 107,
                       108, 32, 109, 110, 32, 111, 112],
      metadata = []\<rparr>"

section \<open>Basic facts\<close>

lemma and_then_Inl [simp]: "and_then (Inl e) f = Inl e"
  by (simp add: and_then_def)

lemma and_then_Inr [simp]: "and_then (Inr x) f = f x"
  by (simp add: and_then_def)



lemma logged_simps [simp]:
  "store (logged ev w) = store w"
  "written (logged ev w) = written w"
  "loaded (logged ev w) = loaded w"
  "stdout (logged ev w) = stdout w"
  "logs (logged ev w) = logs w @ [ev]"
  by (simp_all add: logged_def)

section \<open>Retrieval\<close>

lemma get_attr_simps [simp]:
  "get_attr name None = Inl (AttributeError name)"
  "get_attr name (Some x) = Inr x"
  by (simp_all add: get_attr_def)






text \<open>
  On a retriever whose \<open>chroma_db\<close> is a \<open>ChromaManager\<close>, \<open>similarity_search\<close> raises
  \<open>AttributeError\<close> at its first statement.
\<close>

lemma similarity_search_on_ChromaManager:
  "similarity_search \<lparr>top_k = k, chroma_db = ChromaManager_object\<rparr> query flt
     = Inl (AttributeError attr_collection)"
  by (simp add: similarity_search_def ChromaManager_object_def)



text \<open>
  C10. With no keyword, or with the empty keyword, \<open>hybrid_search\<close> returns what
  \<open>similarity_search\<close> returns on the same query and filter: the same list, unfiltered and
  not truncated, or the same exception.
\<close>

theorem hybrid_search_without_keyword:
  "hybrid_search lw self query None flt = similarity_search self query flt
   \<and> hybrid_search lw self query (Some []) flt = similarity_search self query flt"
  by (cases "similarity_search self query flt") (simp_all add: hybrid_search_def)

text \<open>
  The body of \<open>get_by_id\<close> on an object that has a collection: when the collection's \<open>get\<close>
  returns no document, the result is \<open>None\<close>; when it raises, \<open>get_by_id\<close> raises the same.
\<close>

lemma get_by_id_with_collection:
  assumes "collection (chroma_db self) = Some coll"
  shows "coll_get coll [doc_id] = Inr result \<Longrightarrow> gr_documents result = [] \<Longrightarrow>
           get_by_id self doc_id = Inr None"
    and "coll_get coll [doc_id] = Inl e \<Longrightarrow> get_by_id self doc_id = Inl e"
  using assms by (simp_all add: get_by_id_def)

text \<open>
  C9. On a retriever whose \<open>chroma_db\<close> is a \<open>ChromaManager\<close>, \<open>get_by_id\<close> raises
  \<open>AttributeError\<close> for every identifier, inserted or not: its first statement reads
  \<open>self.chroma_db.collection\<close>, an attribute that \<open>ChromaManager\<close> does not define. It does
  not return the absent sentinel for an identifier that matches nothing.
\<close>

theorem get_by_id_on_ChromaManager:
  "get_by_id \<lparr>top_k = k, chroma_db = ChromaManager_object\<rparr> doc_id
     = Inl (AttributeError attr_collection)"
  by (simp add: get_by_id_def ChromaManager_object_def)

section \<open>Vector store gateway\<close>

text \<open>
  C7. \<open>add_documents\<close> on the empty list returns the empty list of identifiers and raises
  nothing; it logs a warning and makes no call to the index, whose state stays as it was.
\<close>

theorem add_documents_empty:
  "add_documents E [] w = (Inr [], logged Warn_add_empty w)
   \<and> store (snd (add_documents E [] w)) = store w
   \<and> written (snd (add_documents E [] w)) = written w"
  by (simp add: add_documents_def)

section \<open>Scanning an empty directory\<close>

lemma load_pdf_files_none:
  assumes "listdir E (directory self) = Inr names"
    and "\<forall>file \<in> set names. \<not> endswith (lower file) dot_pdf"
  shows "load_pdf_files E self w = (Inl (NoPdfFiles (directory self)), w)"
proof -
  from assms(2) have "filter (\<lambda>file. endswith (lower file) dot_pdf) names = []"
    by (simp add: filter_empty_conv)
  with assms(1) show ?thesis by (simp add: load_pdf_files_def)
qed

text \<open>
  C6. When no name in the directory ends in \<open>.pdf\<close> (case-insensitively), the scan
  \<open>load_pdf_files\<close> raises the no-input error; \<open>process_pdfs\<close> then raises (a \<open>RuntimeError\<close>
  carrying that error), hands nothing to the loader or to the index, and leaves the index
  state, and with it the count reported by \<open>get_collection_stats\<close>, as it was.
\<close>

theorem process_pdfs_no_input:
  assumes "listdir E (directory self) = Inr names"
    and "\<forall>file \<in> set names. \<not> endswith (lower file) dot_pdf"
  shows "fst (load_pdf_files E self w) = Inl (NoPdfFiles (directory self))
       \<and> fst (process_pdfs E self w) = Inl (ProcessFailed (NoPdfFiles (directory self)))
       \<and> written (snd (process_pdfs E self w)) = written w
       \<and> loaded (snd (process_pdfs E self w)) = loaded w
       \<and> store (snd (process_pdfs E self w)) = store w
       \<and> fst (get_collection_stats E (snd (process_pdfs E self w)))
           = fst (get_collection_stats E w)"
  by (simp add: process_pdfs_def load_pdf_files_none [OF assms] get_collection_stats_def
      split: sum.splits)

theorem process_pdfs_no_input_witness:
  "fst (process_pdfs (demo_env [notes_txt] (\<lambda>p. False) False) demo_processor empty_world)
     = Inl (ProcessFailed (NoPdfFiles [100]))
   \<and> store (snd (process_pdfs (demo_env [notes_txt] (\<lambda>p. False) False) demo_processor empty_world))
     = []
   \<and> fst (get_collection_stats (demo_env [notes_txt] (\<lambda>p. False) False)
        (snd (process_pdfs (demo_env [notes_txt] (\<lambda>p. False) False) demo_processor empty_world)))
     = Inr 0"
proof -
  have h1: "listdir (demo_env [notes_txt] (\<lambda>p. False) False) (directory demo_processor)
      = Inr [notes_txt]"
    by (simp add: demo_env_def)
  have h2: "\<forall>file \<in> set [notes_txt]. \<not> endswith (lower file) dot_pdf"
    by (simp add: notes_txt_def endswith_def lower_def lower_cp_def dot_pdf_def suffix_def)
  from process_pdfs_no_input [OF h1 h2, of empty_world] show ?thesis
    by (simp add: demo_processor_def empty_world_def get_collection_stats_def demo_env_def)
qed

section \<open>Batches and groups\<close>

declare range_from.simps [simp del]

lemma range_from_bound: "i \<in> set (range_from j n b) \<Longrightarrow> i < n"
  by (induction j n b rule: range_from.induct) (subst (asm) range_from.simps, auto split: if_splits)

lemma range_from_length: "0 < b \<Longrightarrow> length (range_from i n b) = (n - i + b - 1) div b"
proof (induction i n b rule: range_from.induct)
  case (1 i n step)
  show ?case
  proof (cases "n \<le> i")
    case True
    with 1(2) show ?thesis by (subst range_from.simps) simp
  next
    case False
    then have "length (range_from i n step) = Suc ((n - (i + step) + step - 1) div step)"
      using 1 by (subst range_from.simps) simp
    also have "\<dots> = (n - i + step - 1) div step"
    proof (cases "i + step \<le> n")
      case True
      define X where "X = n - i - 1"
      have e: "n - (i + step) + step - 1 = X" "n - i + step - 1 = X + step"
        using True 1(2) False by (simp_all add: X_def)
      have "(X + step) div step = Suc (X div step)" using 1(2) by simp
      then show ?thesis unfolding e by simp
    next
      case F2: False
      define Z where "Z = n - (i + step) + step - 1"
      define Y where "Y = n - i - 1"
      have e: "n - (i + step) + step - 1 = Z" "n - i + step - 1 = Y + step"
        using F2 False 1(2) by (simp_all add: Y_def Z_def)
      have "Z < step" "Y < step" using F2 False 1(2) by (simp_all add: Y_def Z_def)
      then have "Suc (Z div step) = (Y + step) div step" by simp
      then show ?thesis unfolding e by simp
    qed
    finally show ?thesis .
  qed
qed

lemma range_from_concat:
  "0 < b \<Longrightarrow> concat (map (\<lambda>i. py_slice xs i (i + b)) (range_from i (length xs) b)) = drop i xs"
proof (induction i "length xs" b rule: range_from.induct)
  case (1 i step)
  show ?case
  proof (cases "length xs \<le> i")
    case True
    then show ?thesis by (subst range_from.simps) simp
  next
    case False
    with 1 have "concat (map (\<lambda>i. py_slice xs i (i + step)) (range_from i (length xs) step))
       = take step (drop i xs) @ drop (i + step) xs"
      by (subst range_from.simps) (simp add: py_slice_def)
    also have "\<dots> = drop i xs"
      by (metis add.commute append_take_drop_id drop_drop)
    finally show ?thesis .
  qed
qed

lemma range_from_nth:
  "0 < b \<Longrightarrow> k < length (range_from i n b) \<Longrightarrow> range_from i n b ! k = i + k * b"
proof (induction i n b arbitrary: k rule: range_from.induct)
  case (1 i n step)
  from 1(3) have ni: "\<not> n \<le> i" by (subst (asm) range_from.simps) (auto split: if_splits)
  with 1(2) have eq: "range_from i n step = i # range_from (i + step) n step"
    by (subst range_from.simps) simp
  show ?case
  proof (cases k)
    case 0
    then show ?thesis by (simp add: eq)
  next
    case (Suc k')
    with 1(3) eq have "k' < length (range_from (i + step) n step)" by simp
    with 1(1)[of k'] 1(2) ni have "range_from (i + step) n step ! k' = i + step + k' * step" by simp
    then show ?thesis by (simp add: eq Suc)
  qed
qed

lemma groups_of_length: "0 < b \<Longrightarrow> length (groups_of xs b) = (length xs + b - 1) div b"
  by (simp add: groups_of_def range_from_length)

lemma groups_of_concat: "0 < b \<Longrightarrow> concat (groups_of xs b) = xs"
  by (simp add: groups_of_def range_from_concat)

lemma groups_of_nth:
  "0 < b \<Longrightarrow> k < length (groups_of xs b) \<Longrightarrow> groups_of xs b ! k = take b (drop (k * b) xs)"
  by (simp add: groups_of_def range_from_nth py_slice_def)

lemma groups_of_nonempty: "0 < b \<Longrightarrow> g \<in> set (groups_of xs b) \<Longrightarrow> g \<noteq> []"
  by (auto simp: groups_of_def py_slice_def dest!: range_from_bound) 

lemma groups_of_eq:
  "0 < b \<Longrightarrow> groups_of xs b = map (\<lambda>k. take b (drop (k * b) xs)) [0 ..< (length xs + b - 1) div b]"
  by (rule nth_equalityI) (simp_all add: groups_of_length groups_of_nth)

lemma take_groups_of:
  assumes "0 < b" "m \<le> (length xs + b - 1) div b"
  shows "take m (groups_of xs b) = map (\<lambda>k. take b (drop (k * b) xs)) [0 ..< m]"
  using assms by (simp add: groups_of_eq take_map min_def)

subsection \<open>Effects of one store write\<close>

lemma add_documents_loaded [simp]: "loaded (snd (add_documents E d w)) = loaded w"
  by (simp add: add_documents_def split: prod.splits sum.splits)

lemma add_documents_written:
  "d \<noteq> [] \<Longrightarrow> written (snd (add_documents E d w)) = written w @ [d]"
  by (simp add: add_documents_def split: prod.splits sum.splits)

lemma add_documents_Inl:
  "fst (add_documents E d w) = Inl x \<Longrightarrow>
     \<exists>e. x = AddFailed e \<and> fst (store_add E (store w) d) = Inl e \<and> d \<noteq> [] \<and>
         logs (snd (add_documents E d w)) = logs w @ [Error_add_failed e]"
  by (auto simp: add_documents_def split: prod.splits sum.splits if_splits)

lemma add_documents_Inr:
  "fst (add_documents E d w) = Inr ids \<Longrightarrow>
     \<exists>ev. logs (snd (add_documents E d w)) = logs w @ [ev] \<and> (\<forall>e. ev \<noteq> Error_add_failed e)"
  by (auto simp: add_documents_def split: prod.splits sum.splits if_splits)

subsection \<open>The insertion loop\<close>

lemma insert_loop_loaded [simp]: "loaded (snd (insert_loop E docs b starts w)) = loaded w"
proof (induction starts arbitrary: w)
  case Nil
  show ?case by simp
next
  case (Cons i rest)
  show ?case
  proof (cases "add_documents E (py_slice docs i (i + b)) w")
    case (Pair r w')
    then have l: "loaded w' = loaded w"
      by (metis add_documents_loaded snd_conv)
    show ?thesis using Pair l Cons.IH [of w'] by (cases r) simp_all
  qed
qed

lemma add_documents_store:
  "d \<noteq> [] \<Longrightarrow> store (snd (add_documents E d w)) = snd (store_add E (store w) d)"
  by (simp add: add_documents_def split: prod.splits sum.splits)

lemma add_documents_isl:
  "d \<noteq> [] \<Longrightarrow> isl (fst (add_documents E d w)) = isl (fst (store_add E (store w) d))"
  by (simp add: add_documents_def split: prod.splits sum.splits)

text \<open>
  The trace of the loop: it makes \<open>m\<close> write calls, for the first \<open>m\<close> slices; each call
  before the last succeeded; the last succeeded if the loop ran to its end and failed if
  the loop raised.
\<close>

lemma insert_loop_trace:
  assumes "\<forall>i \<in> set starts. py_slice docs i (i + b) \<noteq> []"
  shows "\<exists>m \<le> length starts.
     written (snd (insert_loop E docs b starts w))
       = written w @ map (\<lambda>i. py_slice docs i (i + b)) (take m starts) \<and>
     store (snd (insert_loop E docs b starts w))
       = foldl (\<lambda>s d. snd (store_add E s d)) (store w)
           (map (\<lambda>i. py_slice docs i (i + b)) (take m starts)) \<and>
     (\<forall>k. Suc k < m \<longrightarrow>
        \<not> isl (fst (store_add E
           (foldl (\<lambda>s d. snd (store_add E s d)) (store w)
              (map (\<lambda>i. py_slice docs i (i + b)) (take k starts)))
           (py_slice docs (starts ! k) (starts ! k + b))))) \<and>
     (fst (insert_loop E docs b starts w) = Inr () \<longrightarrow>
        m = length starts \<and>
        (\<forall>k < m. \<not> isl (fst (store_add E
           (foldl (\<lambda>s d. snd (store_add E s d)) (store w)
              (map (\<lambda>i. py_slice docs i (i + b)) (take k starts)))
           (py_slice docs (starts ! k) (starts ! k + b)))))) \<and>
     (\<forall>x. fst (insert_loop E docs b starts w) = Inl x \<longrightarrow>
        0 < m \<and>
        (\<exists>e. fst (store_add E
           (foldl (\<lambda>s d. snd (store_add E s d)) (store w)
              (map (\<lambda>i. py_slice docs i (i + b)) (take (m - 1) starts)))
           (py_slice docs (starts ! (m - 1)) (starts ! (m - 1) + b))) = Inl e
          \<and> x = AddFailed e))"
  using assms
proof (induction starts arbitrary: w)
  case Nil
  show ?case by simp
next
  case (Cons i rest)
  let ?d = "py_slice docs i (i + b)"
  let ?sl = "\<lambda>i. py_slice docs i (i + b)"
  let ?step = "\<lambda>s d. snd (store_add E s d)"
  from Cons.prems have d: "?d \<noteq> []" by simp
  show ?case
  proof (cases "add_documents E ?d w")
    case (Pair r w')
    have wr: "written w' = written w @ [?d]"
      using add_documents_written [OF d, of E w] Pair by simp
    have st: "store w' = ?step (store w) ?d"
      using add_documents_store [OF d, of E w] Pair by simp
    show ?thesis
    proof (cases r)
      case (Inl x)
      with Pair have "fst (add_documents E ?d w) = Inl x" by simp
      from add_documents_Inl [OF this] obtain e where
        "x = AddFailed e" "fst (store_add E (store w) ?d) = Inl e" by blast
      with Pair Inl wr st show ?thesis
        by (intro exI [of _ "Suc 0"]) simp
    next
      case (Inr ids)
      with Pair have "\<not> isl (fst (add_documents E ?d w))" by simp
      then have ok0: "\<not> isl (fst (store_add E (store w) ?d))"
        using add_documents_isl [OF d, of E w] by simp
      from Cons.prems have "\<forall>i \<in> set rest. py_slice docs i (i + b) \<noteq> []" by simp
      from Cons.IH [OF this, of w'] obtain m where m: "m \<le> length rest"
        "written (snd (insert_loop E docs b rest w')) = written w' @ map ?sl (take m rest)"
        "store (snd (insert_loop E docs b rest w')) = foldl ?step (store w') (map ?sl (take m rest))"
        "\<forall>k. Suc k < m \<longrightarrow>
           \<not> isl (fst (store_add E (foldl ?step (store w') (map ?sl (take k rest)))
              (?sl (rest ! k))))"
        "fst (insert_loop E docs b rest w') = Inr () \<longrightarrow> m = length rest \<and>
           (\<forall>k < m. \<not> isl (fst (store_add E (foldl ?step (store w') (map ?sl (take k rest)))
              (?sl (rest ! k)))))"
        "\<forall>x. fst (insert_loop E docs b rest w') = Inl x \<longrightarrow> 0 < m \<and>
           (\<exists>e. fst (store_add E (foldl ?step (store w') (map ?sl (take (m - 1) rest)))
              (?sl (rest ! (m - 1)))) = Inl e \<and> x = AddFailed e)"
        by blast
      have loop: "insert_loop E docs b (i # rest) w = insert_loop E docs b rest w'"
        using Pair Inr by simp
      have ok: "\<not> isl (fst (store_add E
           (foldl ?step (store w) (map ?sl (take k (i # rest))))
           (?sl ((i # rest) ! k))))"
        if "k = 0 \<or> (\<exists>j. k = Suc j \<and> \<not> isl (fst (store_add E
             (foldl ?step (store w') (map ?sl (take j rest))) (?sl (rest ! j)))))" for k
        using that ok0 st by (cases k) auto
      show ?thesis
      proof (intro exI [of _ "Suc m"] conjI allI impI)
        show "Suc m \<le> length (i # rest)" using m(1) by simp
        show "written (snd (insert_loop E docs b (i # rest) w))
            = written w @ map ?sl (take (Suc m) (i # rest))"
          unfolding loop using m(2) wr by simp
        show "store (snd (insert_loop E docs b (i # rest) w))
            = foldl ?step (store w) (map ?sl (take (Suc m) (i # rest)))"
          unfolding loop using m(3) st by simp
      next
        fix k assume "Suc k < Suc m"
        then have "k = 0 \<or> (\<exists>j. k = Suc j \<and> Suc j < m)" by (cases k) auto
        with m(4) show "\<not> isl (fst (store_add E
           (foldl ?step (store w) (map ?sl (take k (i # rest))))
           (?sl ((i # rest) ! k))))"
          by (intro ok) auto
      next
        assume "fst (insert_loop E docs b (i # rest) w) = Inr ()"
        then have r: "fst (insert_loop E docs b rest w') = Inr ()" unfolding loop .
        with m(5) show "Suc m = length (i # rest)" by simp
        fix k assume "k < Suc m"
        then have "k = 0 \<or> (\<exists>j. k = Suc j \<and> j < m)" by (cases k) auto
        with m(5) r show "\<not> isl (fst (store_add E
           (foldl ?step (store w) (map ?sl (take k (i # rest))))
           (?sl ((i # rest) ! k))))"
          by (intro ok) auto
      next
        fix x assume "fst (insert_loop E docs b (i # rest) w) = Inl x"
        then have x: "fst (insert_loop E docs b rest w') = Inl x" unfolding loop .
        show "0 < Suc m" by simp
        from x m(6) obtain e where e: "0 < m"
          "fst (store_add E (foldl ?step (store w') (map ?sl (take (m - 1) rest)))
              (?sl (rest ! (m - 1)))) = Inl e" "x = AddFailed e"
          by auto
        from e(1) obtain j where j: "m = Suc j" by (cases m) auto
        show "\<exists>e. fst (store_add E
           (foldl ?step (store w) (map ?sl (take (Suc m - 1) (i # rest))))
           (?sl ((i # rest) ! (Suc m - 1)))) = Inl e \<and> x = AddFailed e"
          using e(2,3) st by (intro exI [of _ e]) (simp add: j)
      qed
    qed
  qed
qed

lemma insert_loop_logs:
  "\<exists>new. logs (snd (insert_loop E docs b starts w)) = logs w @ new \<and>
     (\<forall>e. Error_add_failed e \<in> set new \<longrightarrow>
        fst (insert_loop E docs b starts w) = Inl (AddFailed e))"
proof (induction starts arbitrary: w)
  case Nil
  show ?case by simp
next
  case (Cons i rest)
  let ?d = "py_slice docs i (i + b)"
  show ?case
  proof (cases "add_documents E ?d w")
    case (Pair r w')
    show ?thesis
    proof (cases r)
      case (Inl x)
      with Pair have f: "fst (add_documents E ?d w) = Inl x" by simp
      from add_documents_Inl [OF f] Pair obtain e where
        "x = AddFailed e" "logs w' = logs w @ [Error_add_failed e]" by auto
      with Pair Inl show ?thesis by simp
    next
      case (Inr ids)
      with Pair have f: "fst (add_documents E ?d w) = Inr ids" by simp
      from add_documents_Inr [OF f] Pair obtain ev where
        ev: "logs w' = logs w @ [ev]" "\<forall>e. ev \<noteq> Error_add_failed e" by auto
      from Cons.IH [of w'] obtain new where
        "logs (snd (insert_loop E docs b rest w')) = logs w' @ new"
        "\<forall>e. Error_add_failed e \<in> set new \<longrightarrow>
            fst (insert_loop E docs b rest w') = Inl (AddFailed e)" by blast
      with Pair Inr ev show ?thesis
        by (intro exI [of _ "ev # new"]) auto
    qed
  qed
qed

subsection \<open>\<open>insert_docs_chromadb\<close>\<close>

lemma insert_docs_loaded [simp]: "loaded (snd (insert_docs_chromadb E docs bs w)) = loaded w"
proof -
  have "\<And>starts w1. loaded (snd (case insert_loop E docs (nat bs) starts w1 of
            (Inr u, w2) \<Rightarrow> (Inr (), logged Info_insert_done w2)
          | (Inl e, w2) \<Rightarrow> (Inl (InsertFailed e), logged (Error_insert_failed e) w2))) = loaded w1"
    subgoal for starts w1
      using insert_loop_loaded [of E docs "nat bs" starts w1]
      by (cases "insert_loop E docs (nat bs) starts w1") (auto split: sum.splits)
    done
  then show ?thesis
    by (simp add: insert_docs_chromadb_def Let_def py_range_def)
qed

lemma slices_nonempty:
  "0 < b \<Longrightarrow> \<forall>i \<in> set (range_from 0 (length docs) b). py_slice docs i (i + b) \<noteq> []"
  by (auto simp: py_slice_def dest!: range_from_bound)

lemma insert_docs_unfold:
  assumes "docs \<noteq> []" "0 < bs"
  shows "insert_docs_chromadb E docs bs w =
     (case insert_loop E docs (nat bs) (range_from 0 (length docs) (nat bs))
             (logged (Info_insert_start (length docs)) w) of
        (Inr u, w2) \<Rightarrow> (Inr (), logged Info_insert_done w2)
      | (Inl e, w2) \<Rightarrow> (Inl (InsertFailed e), logged (Error_insert_failed e) w2))"
  using assms by (simp add: insert_docs_chromadb_def Let_def py_range_def)

subsection \<open>Loading a group\<close>

lemma load_pdf_content_loaded:
  "loaded (snd (load_pdf_content E p w)) = loaded w @ [p]"
  by (simp add: load_pdf_content_def Let_def split: sum.splits)

lemma load_pdf_content_isl:
  "isl (fst (load_pdf_content E p w)) = isl (pdf_load E p)"
  by (simp add: load_pdf_content_def Let_def split: sum.splits)

lemma load_group_loaded:
  "loaded (snd (load_group E grp acc w))
     = loaded w @ take (Suc (length (takeWhile (\<lambda>p. \<not> isl (pdf_load E p)) grp))) grp"
proof (induction grp arbitrary: acc w)
  case Nil
  show ?case by simp
next
  case (Cons p rest)
  show ?case
  proof (cases "load_pdf_content E p w")
    case (Pair r w')
    then have l: "loaded w' = loaded w @ [p]" "isl r = isl (pdf_load E p)"
      using load_pdf_content_loaded [of E p w] load_pdf_content_isl [of E p w] by simp_all
    show ?thesis
    proof (cases r)
      case (Inl e)
      with Pair l show ?thesis by simp
    next
      case (Inr documents)
      with Pair l Cons.IH [of "acc @ documents" w'] show ?thesis by simp
    qed
  qed
qed

lemma split_text_loaded [simp]: "loaded (snd (split_text E self ds w)) = loaded w"
  by (simp add: split_text_def split: option.splits sum.splits)

lemma group_body_loaded:
  "loaded (snd (process_pdfs_group_body E self grp w)) = loaded (snd (load_group E grp [] w))"
proof (cases "load_group E grp [] w")
  case (Pair r w1)
  show ?thesis
  proof (cases r)
    case (Inl e)
    with Pair show ?thesis by (simp add: process_pdfs_group_body_def)
  next
    case (Inr pdf_contents)
    show ?thesis
    proof (cases "split_text E self pdf_contents w1")
      case sp: (Pair r2 w2)
      then have "loaded w2 = loaded w1" by (metis split_text_loaded snd_conv)
      with Pair Inr sp show ?thesis
        by (cases r2) (simp_all add: process_pdfs_group_body_def)
    qed
  qed
qed

lemma process_pdfs_group_loaded:
  "loaded (process_pdfs_group E self grp w)
     = loaded w @ take (Suc (length (takeWhile (\<lambda>p. \<not> isl (pdf_load E p)) grp))) grp"
proof -
  have "loaded (process_pdfs_group E self grp w) = loaded (snd (process_pdfs_group_body E self grp w))"
    by (simp add: process_pdfs_group_def split: prod.splits sum.splits)
  then show ?thesis by (simp add: group_body_loaded load_group_loaded)
qed

lemma process_pdfs_group_caught:
  "fst (process_pdfs_group_body E self grp w) = Inl e \<Longrightarrow>
     process_pdfs_group E self grp w
       = logged (Error_group_failed e) (snd (process_pdfs_group_body E self grp w))"
  by (cases "process_pdfs_group_body E self grp w") (simp add: process_pdfs_group_def)

lemma group_loop_loaded:
  "loaded (group_loop E self files starts w)
     = loaded w @ concat (map (\<lambda>i.
         let grp = py_slice files i (i + nat (file_group_num self))
         in take (Suc (length (takeWhile (\<lambda>p. \<not> isl (pdf_load E p)) grp))) grp) starts)"
  by (induction starts arbitrary: w) (simp_all add: Let_def process_pdfs_group_loaded)

lemma load_pdf_files_world:
  "snd (load_pdf_files E self w) = w \<or>
   (\<exists>n. snd (load_pdf_files E self w) = logged (Info_found_pdfs n) w)"
  by (auto simp: load_pdf_files_def Let_def split: sum.splits)

lemma load_pdf_files_loaded [simp]: "loaded (snd (load_pdf_files E self w)) = loaded w"
  using load_pdf_files_world [of E self w] by auto

lemma process_pdfs_unfold:
  assumes "fst (load_pdf_files E self (logged Info_start w)) = Inr files"
    and "0 < file_group_num self"
  shows "process_pdfs E self w =
    (let w2 = logged Info_finished
          (group_loop E self files (range_from 0 (length files) (nat (file_group_num self)))
            (snd (load_pdf_files E self (logged Info_start w))))
     in (Inr (), w2\<lparr>stdout := stdout w2 @ [success_line]\<rparr>))"
  using assms
  by (cases "load_pdf_files E self (logged Info_start w)")
     (simp add: process_pdfs_def Let_def py_range_def)

lemma process_pdfs_loaded:
  assumes "fst (load_pdf_files E self (logged Info_start w)) = Inr files"
    and "0 < file_group_num self"
  shows "loaded (snd (process_pdfs E self w))
     = loaded w @ concat (map (\<lambda>grp. take (Suc (length (takeWhile (\<lambda>p. \<not> isl (pdf_load E p)) grp))) grp)
         (groups_of files (nat (file_group_num self))))"
  by (simp add: process_pdfs_unfold [OF assms] Let_def group_loop_loaded groups_of_def comp_def)

lemma take_all_ok:
  "\<forall>p \<in> set grp. \<not> isl (pdf_load E p) \<Longrightarrow>
     take (Suc (length (takeWhile (\<lambda>p. \<not> isl (pdf_load E p)) grp))) grp = grp"
  by (simp add: takeWhile_eq_all_conv [THEN iffD2])

lemma concat_all_ok:
  assumes "0 < g" "\<forall>p \<in> set files. \<not> isl (pdf_load E p)"
  shows "concat (map (\<lambda>grp. take (Suc (length (takeWhile (\<lambda>p. \<not> isl (pdf_load E p)) grp))) grp)
         (groups_of files g)) = files"
proof -
  have "\<forall>grp \<in> set (groups_of files g). \<forall>p \<in> set grp. \<not> isl (pdf_load E p)"
    using assms(2) groups_of_concat [OF assms(1), of files]
    by (metis UN_I set_concat)
  then have "map (\<lambda>grp. take (Suc (length (takeWhile (\<lambda>p. \<not> isl (pdf_load E p)) grp))) grp)
         (groups_of files g) = groups_of files g"
    by (simp add: take_all_ok map_idI)
  then show ?thesis by (simp add: groups_of_concat [OF assms(1)])
qed

subsection \<open>Logs of the insertion\<close>

lemma insert_docs_logs:
  assumes "Error_add_failed e \<in> set (drop (length (logs w)) (logs (snd (insert_docs_chromadb E docs bs w))))"
  shows "fst (insert_docs_chromadb E docs bs w) = Inl (InsertFailed (AddFailed e))"
proof -
  have ne: "docs \<noteq> []" "bs \<noteq> 0"
    using assms by (auto simp: insert_docs_chromadb_def Let_def split: if_splits)
  define starts where "starts = (if bs < 0 then [] else range_from 0 (length docs) (nat bs))"
  define w1 where "w1 = logged (Info_insert_start (length docs)) w"
  have unf: "insert_docs_chromadb E docs bs w =
     (case insert_loop E docs (nat bs) starts w1 of
        (Inr u, w2) \<Rightarrow> (Inr (), logged Info_insert_done w2)
      | (Inl x, w2) \<Rightarrow> (Inl (InsertFailed x), logged (Error_insert_failed x) w2))"
    using ne by (simp add: insert_docs_chromadb_def Let_def py_range_def starts_def w1_def)
  from insert_loop_logs [of E docs "nat bs" starts w1] obtain new where
    new: "logs (snd (insert_loop E docs (nat bs) starts w1)) = logs w1 @ new"
      "\<forall>e. Error_add_failed e \<in> set new \<longrightarrow>
          fst (insert_loop E docs (nat bs) starts w1) = Inl (AddFailed e)" by blast
  show ?thesis
  proof (cases "insert_loop E docs (nat bs) starts w1")
    case (Pair r w2)
    with new have l: "logs w2 = logs w @ Info_insert_start (length docs) # new"
      by (simp add: w1_def)
    show ?thesis
    proof (cases r)
      case (Inl x)
      with assms Pair l have "Error_add_failed e \<in> set new" by (simp add: unf)
      with new(2) Pair Inl show ?thesis by (simp add: unf)
    next
      case (Inr u)
      with assms Pair l have "Error_add_failed e \<in> set new" by (simp add: unf)
      with new(2) Pair Inr show ?thesis by simp
    qed
  qed
qed

lemma process_pdfs_completes:
  assumes "fst (load_pdf_files E self (logged Info_start w)) = Inr files"
    and "file_group_num self \<noteq> 0"
  shows "fst (process_pdfs E self w) = Inr ()"
  using assms
  by (cases "load_pdf_files E self (logged Info_start w)")
     (simp add: process_pdfs_def Let_def py_range_def)

section \<open>Batched insertion\<close>

text \<open>
  C8, as the claim states it, fails when a write raises: with an index whose writes fail,
  three documents and batch size 1, \<open>insert_docs_chromadb\<close> makes one write call, not three,
  and the second and third document are never submitted.
\<close>

theorem insert_docs_chromadb_counterexample:
  "written (snd (insert_docs_chromadb (demo_env [] (\<lambda>p. False) True)
       [doc_of 1, doc_of 2, doc_of 3] 1 empty_world)) = [[doc_of 1]]
   \<and> length (written (snd (insert_docs_chromadb (demo_env [] (\<lambda>p. False) True)
       [doc_of 1, doc_of 2, doc_of 3] 1 empty_world)))
       \<noteq> (length [doc_of 1, doc_of 2, doc_of 3] + nat 1 - 1) div nat 1
   \<and> concat (written (snd (insert_docs_chromadb (demo_env [] (\<lambda>p. False) True)
       [doc_of 1, doc_of 2, doc_of 3] 1 empty_world))) \<noteq> [doc_of 1, doc_of 2, doc_of 3]"
  by (simp add: insert_docs_chromadb_def py_range_def range_from.simps add_documents_def
      py_slice_def demo_env_def empty_world_def logged_def)

text \<open>
  C8, amended. For a non-empty document list of length \<open>n\<close> and a batch size \<open>b > 0\<close>,
  \<open>insert_docs_chromadb\<close> hands the index the consecutive slices of \<open>b\<close> documents (the last
  one may be shorter), in the original order, one write call per slice, until a write
  raises. If it returns normally it has made exactly \<open>\<lceil>n / b\<rceil>\<close> write calls, whose
  concatenation is the document list, so every document was submitted exactly once. If a
  write raises, the slices after the failing one are not submitted and the method raises.

  In the statement, \<open>slice k\<close> is the \<open>k\<close>-th slice, \<open>state k\<close> the state of the index after the
  first \<open>k\<close> slices have been handed to it, and \<open>m\<close> the number of write calls made: the
  calls are those of the slices \<open>0, \<dots>, m - 1\<close>, every call before the last succeeded, and
  the last one succeeded if the method returns and failed if it raises.
\<close>

theorem insert_docs_chromadb_batches:
  assumes "docs \<noteq> []" and "0 < batch_size"
  shows
   "let b = nat batch_size;
        slice = (\<lambda>k. take b (drop (k * b) docs));
        state = (\<lambda>k. foldl (\<lambda>s d. snd (store_add E s d)) (store w) (map slice [0 ..< k]));
        r = insert_docs_chromadb E docs batch_size w
    in \<exists>m. 0 < m \<and> m \<le> (length docs + b - 1) div b \<and>
         written (snd r) = written w @ map slice [0 ..< m] \<and>
         store (snd r) = state m \<and>
         (\<forall>k. Suc k < m \<longrightarrow> \<not> isl (fst (store_add E (state k) (slice k)))) \<and>
         (fst r = Inr () \<longrightarrow>
            m = (length docs + b - 1) div b \<and>
            \<not> isl (fst (store_add E (state (m - 1)) (slice (m - 1)))) \<and>
            concat (map slice [0 ..< m]) = docs) \<and>
         (fst r \<noteq> Inr () \<longrightarrow>
            (\<exists>e. fst (store_add E (state (m - 1)) (slice (m - 1))) = Inl e \<and>
                 fst r = Inl (InsertFailed (AddFailed e))))"
proof -
  define b where "b = nat batch_size"
  define slice where "slice = (\<lambda>k. take b (drop (k * b) docs))"
  define step where "step = (\<lambda>s d. snd (store_add E s d))"
  define state where "state = (\<lambda>k. foldl step (store w) (map slice [0 ..< k]))"
  define N where "N = (length docs + b - 1) div b"
  define starts where "starts = range_from 0 (length docs) b"
  define sl where "sl = (\<lambda>i. py_slice docs i (i + b))"
  define w1 where "w1 = logged (Info_insert_start (length docs)) w"
  define r1 where "r1 = insert_loop E docs b starts w1"
  have b: "0 < b" using assms(2) by (simp add: b_def)
  have len: "length starts = N"
    by (simp add: starts_def N_def range_from_length b)
  have pos: "0 < N" using assms(1) b unfolding len [symmetric]
    by (subst starts_def, subst range_from.simps) simp
  have tk: "map sl (take k starts) = map slice [0 ..< k]" if "k \<le> N" for k
    using take_groups_of [OF b, of k docs] that
    by (simp add: groups_of_def starts_def sl_def slice_def N_def take_map)
  have nth: "sl (starts ! k) = slice k" if "k < N" for k
    using groups_of_nth [OF b, of k docs] that len
    by (simp add: groups_of_def starts_def sl_def slice_def N_def groups_of_length b)
  have ne: "\<forall>i \<in> set starts. py_slice docs i (i + b) \<noteq> []"
    unfolding starts_def by (rule slices_nonempty [OF b])
  from insert_loop_trace [OF ne, of E w1] obtain m where m: "m \<le> N"
    "written (snd r1) = written w1 @ map sl (take m starts)"
    "store (snd r1) = foldl step (store w1) (map sl (take m starts))"
    "\<forall>k. Suc k < m \<longrightarrow>
        \<not> isl (fst (store_add E (foldl step (store w1) (map sl (take k starts))) (sl (starts ! k))))"
    "fst r1 = Inr () \<longrightarrow> m = length starts \<and>
        (\<forall>k < m. \<not> isl (fst (store_add E (foldl step (store w1) (map sl (take k starts)))
           (sl (starts ! k)))))"
    "\<forall>x. fst r1 = Inl x \<longrightarrow> 0 < m \<and>
        (\<exists>e. fst (store_add E (foldl step (store w1) (map sl (take (m - 1) starts)))
           (sl (starts ! (m - 1)))) = Inl e \<and> x = AddFailed e)"
    unfolding r1_def sl_def step_def len [symmetric] by blast
  have w1s: "store w1 = store w" "written w1 = written w" by (simp_all add: w1_def)
  have A: "written (snd r1) = written w @ map slice [0 ..< m]"
    using m(2) tk [OF m(1)] w1s by simp
  have B: "store (snd r1) = state m"
    using m(3) tk [OF m(1)] w1s by (simp add: state_def)
  have C: "\<not> isl (fst (store_add E (state k) (slice k)))" if "Suc k < m" for k
  proof -
    from that m(1) have k: "k \<le> N" "k < N" by simp_all
    from that m(4) have
      "\<not> isl (fst (store_add E (foldl step (store w1) (map sl (take k starts)))
           (sl (starts ! k))))" by blast
    with tk [OF k(1)] nth [OF k(2)] w1s show ?thesis by (simp add: state_def)
  qed
  have D: "m = N \<and> \<not> isl (fst (store_add E (state (m - 1)) (slice (m - 1))))
        \<and> concat (map slice [0 ..< m]) = docs" if "fst r1 = Inr ()"
  proof -
    from that m(5) len have mN: "m = N" by simp
    with pos have k: "m - 1 < m" "m - 1 \<le> N" "m - 1 < N" by simp_all
    from that m(5) k(1) have
      "\<not> isl (fst (store_add E (foldl step (store w1) (map sl (take (m - 1) starts)))
           (sl (starts ! (m - 1)))))" by blast
    with tk [OF k(2)] nth [OF k(3)] w1s
    have "\<not> isl (fst (store_add E (state (m - 1)) (slice (m - 1))))" by (simp add: state_def)
    moreover have "concat (map slice [0 ..< m]) = docs"
      using groups_of_concat [OF b, of docs] groups_of_eq [OF b, of docs] mN
      by (simp add: slice_def N_def)
    ultimately show ?thesis using mN by simp
  qed
  have F: "0 < m \<and> (\<exists>e. fst (store_add E (state (m - 1)) (slice (m - 1))) = Inl e \<and> x = AddFailed e)"
    if "fst r1 = Inl x" for x
  proof -
    from that m(6) obtain e where e: "0 < m"
      "fst (store_add E (foldl step (store w1) (map sl (take (m - 1) starts)))
           (sl (starts ! (m - 1)))) = Inl e" "x = AddFailed e" by blast
    from e(1) m(1) have k: "m - 1 \<le> N" "m - 1 < N" by simp_all
    from e(2) tk [OF k(1)] nth [OF k(2)] w1s
    have "fst (store_add E (state (m - 1)) (slice (m - 1))) = Inl e" by (simp add: state_def)
    with e show ?thesis by blast
  qed
  have unf: "insert_docs_chromadb E docs batch_size w =
     (case r1 of
        (Inr u, w2) \<Rightarrow> (Inr (), logged Info_insert_done w2)
      | (Inl e, w2) \<Rightarrow> (Inl (InsertFailed e), logged (Error_insert_failed e) w2))"
    using insert_docs_unfold [OF assms] by (simp add: b_def starts_def w1_def r1_def)
  have G: "\<exists>m. 0 < m \<and> m \<le> N \<and>
         written (snd (insert_docs_chromadb E docs batch_size w)) = written w @ map slice [0 ..< m] \<and>
         store (snd (insert_docs_chromadb E docs batch_size w)) = state m \<and>
         (\<forall>k. Suc k < m \<longrightarrow> \<not> isl (fst (store_add E (state k) (slice k)))) \<and>
         (fst (insert_docs_chromadb E docs batch_size w) = Inr () \<longrightarrow>
            m = N \<and>
            \<not> isl (fst (store_add E (state (m - 1)) (slice (m - 1)))) \<and>
            concat (map slice [0 ..< m]) = docs) \<and>
         (fst (insert_docs_chromadb E docs batch_size w) \<noteq> Inr () \<longrightarrow>
            (\<exists>e. fst (store_add E (state (m - 1)) (slice (m - 1))) = Inl e \<and>
                 fst (insert_docs_chromadb E docs batch_size w) = Inl (InsertFailed (AddFailed e))))"
  proof (cases r1)
    case (Pair res w2)
    show ?thesis
    proof (cases res)
      case (Inl x)
      with Pair F [of x] obtain e where e: "0 < m"
        "fst (store_add E (state (m - 1)) (slice (m - 1))) = Inl e" "x = AddFailed e" by auto
      show ?thesis
        using Pair Inl e m(1) A B C unfolding unf
        by (intro exI [of _ m]) auto
    next
      case (Inr u)
      with Pair D have d: "m = N" "\<not> isl (fst (store_add E (state (m - 1)) (slice (m - 1))))"
        "concat (map slice [0 ..< m]) = docs" by auto
      show ?thesis
        using Pair Inr d pos A B C unfolding unf
        by (intro exI [of _ m]) auto
    qed
  qed
  show ?thesis
    unfolding Let_def
    using G unfolding N_def state_def step_def slice_def b_def .
qed

theorem insert_docs_chromadb_batches_witness:
  "[doc_of 1, doc_of 2, doc_of 3, doc_of 4, doc_of 5] \<noteq> [] \<and> (0 :: int) < 2
   \<and> fst (insert_docs_chromadb (capped_env 2)
       [doc_of 1, doc_of 2, doc_of 3, doc_of 4, doc_of 5] 2 empty_world)
       = Inl (InsertFailed (AddFailed (External [102, 117, 108, 108])))
   \<and> written (snd (insert_docs_chromadb (capped_env 2)
       [doc_of 1, doc_of 2, doc_of 3, doc_of 4, doc_of 5] 2 empty_world))
       = [[doc_of 1, doc_of 2], [doc_of 3, doc_of 4]]
   \<and> fst (insert_docs_chromadb (demo_env [] (\<lambda>p. False) False)
       [doc_of 1, doc_of 2, doc_of 3] 2 empty_world) = Inr ()
   \<and> written (snd (insert_docs_chromadb (demo_env [] (\<lambda>p. False) False)
       [doc_of 1, doc_of 2, doc_of 3] 2 empty_world)) = [[doc_of 1, doc_of 2], [doc_of 3]]"
proof -
  have h1: "[doc_of 1, doc_of 2, doc_of 3, doc_of 4, doc_of 5] \<noteq> []"
    "[doc_of 1, doc_of 2, doc_of 3] \<noteq> []" by simp_all
  have h2: "(0 :: int) < 2" by simp
  note failing = insert_docs_chromadb_batches [OF h1(1) h2, of "capped_env 2" empty_world]
  note passing = insert_docs_chromadb_batches
    [OF h1(2) h2, of "demo_env [] (\<lambda>p. False) False" empty_world]
  have a: "fst (insert_docs_chromadb (capped_env 2)
       [doc_of 1, doc_of 2, doc_of 3, doc_of 4, doc_of 5] 2 empty_world)
       = Inl (InsertFailed (AddFailed (External [102, 117, 108, 108])))
    \<and> written (snd (insert_docs_chromadb (capped_env 2)
       [doc_of 1, doc_of 2, doc_of 3, doc_of 4, doc_of 5] 2 empty_world))
       = [[doc_of 1, doc_of 2], [doc_of 3, doc_of 4]]"
    using failing
    by (simp add: insert_docs_chromadb_def py_range_def range_from.simps add_documents_def
        py_slice_def capped_env_def demo_env_def empty_world_def logged_def)
  have b: "fst (insert_docs_chromadb (demo_env [] (\<lambda>p. False) False)
       [doc_of 1, doc_of 2, doc_of 3] 2 empty_world) = Inr ()
    \<and> written (snd (insert_docs_chromadb (demo_env [] (\<lambda>p. False) False)
       [doc_of 1, doc_of 2, doc_of 3] 2 empty_world)) = [[doc_of 1, doc_of 2], [doc_of 3]]"
    using passing
    by (simp add: insert_docs_chromadb_def py_range_def range_from.simps add_documents_def
        py_slice_def demo_env_def empty_world_def logged_def)
  from h1 h2 a b show ?thesis by simp
qed

section \<open>Write failures\<close>

text \<open>
  C3, as the claim states it, fails at \<open>process_pdfs\<close>: over a directory with one PDF and an
  index whose writes fail, the run returns normally and prints its success line, although
  the one write it made has failed (the failure is in the log; the index is still empty).
\<close>

theorem process_pdfs_masks_write_failure:
  "fst (process_pdfs (demo_env [a_pdf] (\<lambda>p. False) True) demo_processor empty_world) = Inr ()
   \<and> stdout (snd (process_pdfs (demo_env [a_pdf] (\<lambda>p. False) True) demo_processor empty_world))
       = [success_line]
   \<and> Error_add_failed (External [100, 111, 119, 110])
       \<in> set (logs (snd (process_pdfs (demo_env [a_pdf] (\<lambda>p. False) True)
             demo_processor empty_world)))
   \<and> store (snd (process_pdfs (demo_env [a_pdf] (\<lambda>p. False) True) demo_processor empty_world))
       = []"
  by (simp add: process_pdfs_def load_pdf_files_def demo_processor_def demo_env_def a_pdf_def
      lower_def lower_cp_def endswith_def dot_pdf_def suffix_to_prefix path_join_def
      py_range_def range_from.simps py_slice_def process_pdfs_group_def
      process_pdfs_group_body_def load_pdf_content_def split_text_def
      insert_docs_chromadb_def add_documents_def empty_world_def logged_def Let_def)

text \<open>
  C3, amended. A failed index write is surfaced by raising at the two operations that
  face the index: \<open>add_documents\<close> raises when the write of a non-empty list fails, and
  \<open>insert_docs_chromadb\<close> raises whenever one of its writes has failed. \<open>process_pdfs_group\<close>
  catches every exception of its body, logs it as an error and returns normally, and
  \<open>process_pdfs\<close> returns normally whenever the scan found files and the group size is not
  zero, whether or not a write has failed.
\<close>

theorem write_failure_surfaces:
  "(docs \<noteq> [] \<and> fst (store_add E (store w) docs) = Inl e \<longrightarrow>
      fst (add_documents E docs w) = Inl (AddFailed e))
   \<and> (Error_add_failed e
        \<in> set (drop (length (logs w)) (logs (snd (insert_docs_chromadb E docs batch_size w)))) \<longrightarrow>
      fst (insert_docs_chromadb E docs batch_size w) = Inl (InsertFailed (AddFailed e)))
   \<and> (fst (process_pdfs_group_body E self grp w) = Inl x \<longrightarrow>
      logs (process_pdfs_group E self grp w)
        = logs (snd (process_pdfs_group_body E self grp w)) @ [Error_group_failed x])
   \<and> (fst (load_pdf_files E self (logged Info_start w)) = Inr files \<and> file_group_num self \<noteq> 0 \<longrightarrow>
      fst (process_pdfs E self w) = Inr ())"
proof (intro conjI impI)
  assume "docs \<noteq> [] \<and> fst (store_add E (store w) docs) = Inl e"
  then show "fst (add_documents E docs w) = Inl (AddFailed e)"
    by (cases "store_add E (store w) docs") (simp add: add_documents_def)
next
  assume "Error_add_failed e
        \<in> set (drop (length (logs w)) (logs (snd (insert_docs_chromadb E docs batch_size w))))"
  then show "fst (insert_docs_chromadb E docs batch_size w) = Inl (InsertFailed (AddFailed e))"
    by (rule insert_docs_logs)
next
  assume "fst (process_pdfs_group_body E self grp w) = Inl x"
  then show "logs (process_pdfs_group E self grp w)
        = logs (snd (process_pdfs_group_body E self grp w)) @ [Error_group_failed x]"
    by (simp add: process_pdfs_group_caught)
next
  assume "fst (load_pdf_files E self (logged Info_start w)) = Inr files \<and> file_group_num self \<noteq> 0"
  then show "fst (process_pdfs E self w) = Inr ()"
    by (simp add: process_pdfs_completes)
qed

theorem write_failure_surfaces_witness:
  "fst (add_documents (demo_env [a_pdf] (\<lambda>p. False) True) [doc_of 1] empty_world)
     = Inl (AddFailed (External [100, 111, 119, 110]))
   \<and> fst (insert_docs_chromadb (demo_env [a_pdf] (\<lambda>p. False) True) [doc_of 1] 6 empty_world)
     = Inl (InsertFailed (AddFailed (External [100, 111, 119, 110])))
   \<and> logs (process_pdfs_group (demo_env [a_pdf] (\<lambda>p. False) True) demo_processor [path_a]
        empty_world)
     = logs (snd (process_pdfs_group_body (demo_env [a_pdf] (\<lambda>p. False) True) demo_processor
          [path_a] empty_world))
       @ [Error_group_failed (InsertFailed (AddFailed (External [100, 111, 119, 110])))]
   \<and> fst (process_pdfs (demo_env [a_pdf] (\<lambda>p. False) True) demo_processor empty_world) = Inr ()"
proof -
  let ?E = "demo_env [a_pdf] (\<lambda>p. False) True"
  let ?e = "External [100, 111, 119, 110]"
  have h1: "[doc_of 1] \<noteq> [] \<and> fst (store_add ?E (store empty_world) [doc_of 1]) = Inl ?e"
    by (simp add: demo_env_def)
  have h2: "Error_add_failed ?e \<in> set (drop (length (logs empty_world))
      (logs (snd (insert_docs_chromadb ?E [doc_of 1] 6 empty_world))))"
    by (simp add: insert_docs_chromadb_def py_range_def range_from.simps add_documents_def
        py_slice_def demo_env_def empty_world_def logged_def)
  have h3: "fst (process_pdfs_group_body ?E demo_processor [path_a] empty_world)
      = Inl (InsertFailed (AddFailed ?e))"
    by (simp add: process_pdfs_group_body_def load_pdf_content_def split_text_def
        insert_docs_chromadb_def py_range_def range_from.simps add_documents_def
        py_slice_def demo_env_def demo_processor_def empty_world_def logged_def Let_def)
  have h4: "fst (load_pdf_files ?E demo_processor (logged Info_start empty_world)) = Inr [path_a]
      \<and> file_group_num demo_processor \<noteq> 0"
    by (simp add: load_pdf_files_def demo_processor_def demo_env_def a_pdf_def path_a_def
        lower_def lower_cp_def endswith_def dot_pdf_def suffix_to_prefix path_join_def)
  from write_failure_surfaces [of "[doc_of 1]" ?E empty_world ?e 6 demo_processor "[path_a]"
      "InsertFailed (AddFailed ?e)" "[path_a]"] h1 h2 h3 h4
  show ?thesis by simp
qed

section \<open>Group processing\<close>

text \<open>
  C2, as the claim states it, fails on a load failure: with the files \<open>a.pdf\<close> and \<open>b.PDF\<close> in
  one group and a loader that fails on the first, the run reaches its terminal state (it
  returns normally) and the second file, although discovered, was never handed to the
  loader.
\<close>

theorem process_pdfs_skips_rest_of_group:
  "fst (load_pdf_files (demo_env [a_pdf, b_pdf] (\<lambda>p. p = path_a) False) demo_processor
       empty_world) = Inr [path_a, path_b]
   \<and> fst (process_pdfs (demo_env [a_pdf, b_pdf] (\<lambda>p. p = path_a) False) demo_processor
       empty_world) = Inr ()
   \<and> loaded (snd (process_pdfs (demo_env [a_pdf, b_pdf] (\<lambda>p. p = path_a) False) demo_processor
       empty_world)) = [path_a]"
  by (simp add: process_pdfs_def load_pdf_files_def demo_processor_def demo_env_def a_pdf_def
      b_pdf_def path_a_def path_b_def
      lower_def lower_cp_def endswith_def dot_pdf_def suffix_to_prefix path_join_def
      py_range_def range_from.simps py_slice_def process_pdfs_group_def
      process_pdfs_group_body_def load_pdf_content_def empty_world_def logged_def Let_def)

text \<open>
  C2, amended. For a run whose scan found the files \<open>files\<close> and whose group size \<open>g\<close> is
  positive: the run returns normally; the groups are the consecutive slices of \<open>g\<close> files,
  each processed once and in order, whatever happened in the groups before; within a
  group the files are handed to the loader in order up to and including the first one
  whose load fails, and the files after it in that group are not loaded; when no load
  fails every discovered file is loaded exactly once, in order. An exception raised while
  a group is processed (by loading, by splitting, or the error of a failed write) is
  caught by \<open>process_pdfs_group\<close>, which logs it and returns normally.
\<close>

theorem process_pdfs_group_isolation:
  assumes "fst (load_pdf_files E self (logged Info_start w)) = Inr files"
    and "0 < file_group_num self"
  shows "fst (process_pdfs E self w) = Inr ()
     \<and> loaded (snd (process_pdfs E self w))
         = loaded w @ concat (map
             (\<lambda>k. let grp = take (nat (file_group_num self)) (drop (k * nat (file_group_num self)) files)
                  in take (Suc (length (takeWhile (\<lambda>p. \<not> isl (pdf_load E p)) grp))) grp)
             [0 ..< (length files + nat (file_group_num self) - 1) div nat (file_group_num self)])
     \<and> ((\<forall>p \<in> set files. \<not> isl (pdf_load E p)) \<longrightarrow>
          loaded (snd (process_pdfs E self w)) = loaded w @ files)
     \<and> (\<forall>grp w' e. fst (process_pdfs_group_body E self grp w') = Inl e \<longrightarrow>
          process_pdfs_group E self grp w'
            = logged (Error_group_failed e) (snd (process_pdfs_group_body E self grp w')))"
proof -
  have g: "0 < nat (file_group_num self)" using assms(2) by simp
  have r: "fst (process_pdfs E self w) = Inr ()"
    using assms by (simp add: process_pdfs_completes)
  have l: "loaded (snd (process_pdfs E self w))
     = loaded w @ concat (map (\<lambda>grp. take (Suc (length (takeWhile (\<lambda>p. \<not> isl (pdf_load E p)) grp))) grp)
         (groups_of files (nat (file_group_num self))))"
    by (rule process_pdfs_loaded [OF assms])
  have l1: "loaded (snd (process_pdfs E self w))
         = loaded w @ concat (map
             (\<lambda>k. let grp = take (nat (file_group_num self)) (drop (k * nat (file_group_num self)) files)
                  in take (Suc (length (takeWhile (\<lambda>p. \<not> isl (pdf_load E p)) grp))) grp)
             [0 ..< (length files + nat (file_group_num self) - 1) div nat (file_group_num self)])"
    unfolding l groups_of_eq [OF g] by (simp add: comp_def Let_def)
  have l2: "loaded (snd (process_pdfs E self w)) = loaded w @ files"
    if "\<forall>p \<in> set files. \<not> isl (pdf_load E p)"
    unfolding l using concat_all_ok [OF g that] by simp
  show ?thesis using r l1 l2 process_pdfs_group_caught by blast
qed

theorem process_pdfs_group_isolation_witness:
  "fst (process_pdfs (demo_env [a_pdf, b_pdf] (\<lambda>p. p = path_a) False)
       (demo_processor\<lparr>file_group_num := 1\<rparr>) empty_world) = Inr ()
   \<and> loaded (snd (process_pdfs (demo_env [a_pdf, b_pdf] (\<lambda>p. p = path_a) False)
       (demo_processor\<lparr>file_group_num := 1\<rparr>) empty_world)) = [path_a, path_b]
   \<and> loaded (snd (process_pdfs (demo_env [a_pdf, b_pdf] (\<lambda>p. False) False)
       demo_processor empty_world)) = [path_a, path_b]"
proof -
  let ?E = "demo_env [a_pdf, b_pdf] (\<lambda>p. p = path_a) False"
  let ?E' = "demo_env [a_pdf, b_pdf] (\<lambda>p. False) False"
  let ?P = "demo_processor\<lparr>file_group_num := 1\<rparr>"
  have scan: "fst (load_pdf_files (demo_env [a_pdf, b_pdf] bad False) P (logged Info_start empty_world))
      = Inr [path_a, path_b]" if "directory P = [100]" for bad P
    using that
    by (simp add: load_pdf_files_def demo_env_def a_pdf_def b_pdf_def path_a_def
        path_b_def lower_def lower_cp_def endswith_def dot_pdf_def suffix_to_prefix path_join_def)
  have h1: "fst (load_pdf_files ?E ?P (logged Info_start empty_world)) = Inr [path_a, path_b]"
    by (rule scan) (simp add: demo_processor_def)
  have h1': "fst (load_pdf_files ?E' demo_processor (logged Info_start empty_world)) = Inr [path_a, path_b]"
    by (rule scan) (simp add: demo_processor_def)
  have h2: "0 < file_group_num ?P" "0 < file_group_num demo_processor"
    by (simp_all add: demo_processor_def)
  have ok: "\<forall>p \<in> set [path_a, path_b]. \<not> isl (pdf_load ?E' p)"
    by (simp add: demo_env_def)
  have bad: "isl (pdf_load ?E path_a)" "\<not> isl (pdf_load ?E path_b)"
    by (simp_all add: demo_env_def path_a_def path_b_def)
  have n: "nat (file_group_num ?P) = Suc 0" by simp
  from process_pdfs_group_isolation [OF h1 h2(1)] have
    a: "fst (process_pdfs ?E ?P empty_world) = Inr ()"
    and b: "loaded (snd (process_pdfs ?E ?P empty_world)) = [path_a, path_b]"
    using bad unfolding n by (simp_all add: empty_world_def upt_conv_Cons Let_def)
  from process_pdfs_group_isolation [OF h1' h2(2)] have
    "(\<forall>p \<in> set [path_a, path_b]. \<not> isl (pdf_load ?E' p)) \<longrightarrow>
       loaded (snd (process_pdfs ?E' demo_processor empty_world))
         = loaded empty_world @ [path_a, path_b]"
    by blast
  with ok have
    c: "loaded (snd (process_pdfs ?E' demo_processor empty_world)) = [path_a, path_b]"
    by (simp add: empty_world_def)
  from a b c show ?thesis by simp
qed

section \<open>Chunking\<close>

lemma split_from_short:
  "ov < c \<Longrightarrow> tx \<noteq> [] \<Longrightarrow> length tx \<le> c \<Longrightarrow> split_from c ov tx 0 = Some [(0, tx)]"
  by (subst split_from.simps) simp

lemma split_from_empty: "split_from c ov [] s = Some []"
  by (subst split_from.simps) simp

lemma find_cut_unfold:
  "find_cut sep t hi =
     (if hi = 0 then None
      else if suffix sep (take hi t) then Some hi
      else find_cut sep t (hi - 1))"
  by (cases hi) auto

text \<open>The splitter on the 23 characters of the demonstration page, with sizes 10 and 3.\<close>

lemma demo_split:
  "split_from 10 3 (page_content demo_page) 0 =
     Some [(0, [97, 98, 32, 99, 100, 32, 101, 102, 32]),
           (6, [101, 102, 32, 103, 104, 32, 105, 106, 32]),
           (12, [105, 106, 32, 107, 108, 32, 109, 110, 32]),
           (18, [109, 110, 32, 111, 112])]"
  by (simp add: demo_page_def split_from.simps separators_def find_cut_unfold suffix_to_prefix)

text \<open>
  C5. For \<open>0 \<le> ov < c\<close>, splitting a page whose text is not longer than \<open>c\<close> yields exactly one
  chunk, whose text is the page text, when the page is not empty, and no chunk when the
  page is empty; an empty page yields no chunk whatever the sizes are.
\<close>

theorem split_short_page:
  assumes "ov < c" and "length (page_content page) \<le> c"
  shows "map_option (map page_content) (split [page] c ov)
           = Some (if page_content page = [] then [] else [page_content page])
       \<and> map_option length (split [page] c ov)
           = Some (if page_content page = [] then 0 else 1)
       \<and> split [\<lparr>page_content = [], metadata = md\<rparr>] c' ov' = Some []"
  using assms
  by (simp add: split_page_def split_from_short split_from_empty)

theorem split_short_page_witness:
  "(3 :: nat) < 30 \<and> length (page_content demo_page) \<le> 30
   \<and> map_option (map page_content) (split [demo_page] 30 3) = Some [page_content demo_page]
   \<and> split [\<lparr>page_content = [], metadata = []\<rparr>] 30 3 = Some []"
proof -
  have h1: "(3 :: nat) < 30" by simp
  have h2: "length (page_content demo_page) \<le> 30" by (simp add: demo_page_def)
  have ne: "page_content demo_page \<noteq> []" by (simp add: demo_page_def)
  from split_short_page [OF h1 h2, of "[]" 30 3] h1 h2 ne show ?thesis by simp
qed

end
